theory Spec2Isabelle
  imports Main
begin

section \<open>csvjoin: the N-way CSV join\<close>

text \<open>
  A shallow embedding of \<^verbatim>\<open>csvjoin.py\<close>. Python lists are HOL lists, Python strings are
  HOL strings (the text is taken to be ASCII), row and column indices are natural numbers
  (every index the program computes comes from \<^verbatim>\<open>range\<close>, \<^verbatim>\<open>list.index\<close>, a
  digit string or a counter starting at zero), and every exception the program can raise
  is a value of \<open>py_error\<close>, returned as \<open>Inl\<close>.
\<close>

subsection \<open>Data model\<close>

type_synonym row = "string list"

type_synonym table = "row list"

text \<open>
  The exceptions. \<open>Exception\<close> carries its message; the message of an
  \<^verbatim>\<open>assert\<close> is left out. \<open>Unmodelled\<close> is no Python exception: \<open>py_int\<close> below
  returns it on the strings on which this model of \<^verbatim>\<open>int\<close> says nothing.

  Where the model of \<^verbatim>\<open>format\<close>, \<^verbatim>\<open>eval\<close> and \<^verbatim>\<open>str\<close> does not cover what Python
  does, the result is of type \<open>(py_error + 'a) option\<close>: \<open>Some (Inr v)\<close> is the
  value \<open>v\<close>, \<open>Some (Inl e)\<close> is the exception \<open>e\<close>, and \<open>None\<close> says that the
  model leaves open what Python does (it may return a value or raise).
\<close>

datatype py_error =
    TypeError
  | IndexError
  | ValueError
  | AssertionError
  | Exception string
  | SyntaxError
  | NameError string
  | Unmodelled

subsection \<open>Python's lists and strings\<close>

text \<open>
  \<^verbatim>\<open>xs[i]\<close> for \<open>i \<ge> 0\<close>, and a list comprehension whose body can raise: the first
  exception ends it.
\<close>

definition subscript :: "'a list \<Rightarrow> nat \<Rightarrow> py_error + 'a" where
  "subscript xs i = (if i < length xs then Inr (xs ! i) else Inl IndexError)"

fun collect :: "('a \<Rightarrow> py_error + 'b) \<Rightarrow> 'a list \<Rightarrow> py_error + 'b list" where
  "collect f [] = Inr []"
| "collect f (x # xs) =
     (case f x of
        Inl e \<Rightarrow> Inl e
      | Inr y \<Rightarrow> (case collect f xs of Inl e \<Rightarrow> Inl e | Inr ys \<Rightarrow> Inr (y # ys)))"

text \<open>
  \<^verbatim>\<open>s.split(sep)\<close> for a one-character separator (the second argument is the piece
  read so far), \<^verbatim>\<open>xs.index(x)\<close>, \<^verbatim>\<open>sep.join(xs)\<close>.
\<close>

fun py_split :: "char \<Rightarrow> string \<Rightarrow> string \<Rightarrow> string list" where
  "py_split sep [] cur = [cur]"
| "py_split sep (c # cs) cur =
     (if c = sep then cur # py_split sep cs [] else py_split sep cs (cur @ [c]))"

fun py_index :: "'a list \<Rightarrow> 'a \<Rightarrow> py_error + nat" where
  "py_index [] x = Inl ValueError"
| "py_index (y # ys) x =
     (if y = x then Inr 0
      else (case py_index ys x of Inl e \<Rightarrow> Inl e | Inr k \<Rightarrow> Inr (Suc k)))"

definition py_join :: "string \<Rightarrow> string list \<Rightarrow> string" where
  "py_join sep xs = (case xs of [] \<Rightarrow> [] | x # xs' \<Rightarrow> x @ concat (map (\<lambda>y. sep @ y) xs'))"

definition newline :: char where
  "newline = CHR 0x0A"

text \<open>
  The character classes \<^verbatim>\<open>\d\<close> and \<^verbatim>\<open>\w\<close> on ASCII text.
\<close>

definition is_digit :: "char \<Rightarrow> bool" where
  "is_digit c = (c \<in> set ''0123456789'')"

definition is_word :: "char \<Rightarrow> bool" where
  "is_word c =
     (c \<in> set ''abcdefghijklmnopqrstuvwxyzABCDEFGHIJKLMNOPQRSTUVWXYZ0123456789_'')"

text \<open>
  \<^verbatim>\<open>int(s)\<close>: a non-empty string of digits is its value, a string without any digit
  raises ValueError; signs, blanks and underscores mixed with digits are not modelled.
  \<^verbatim>\<open>str(v)\<close> of an integer is its decimal numeral.
\<close>

definition digit_value :: "char \<Rightarrow> nat" where
  "digit_value c = of_char c - 48"

definition nat_of_digits :: "string \<Rightarrow> nat" where
  "nat_of_digits ds = foldl (\<lambda>a c. 10 * a + digit_value c) 0 ds"

definition py_int :: "string \<Rightarrow> py_error + nat" where
  "py_int s =
     (if s \<noteq> [] \<and> list_all is_digit s then Inr (nat_of_digits s)
      else if list_all (\<lambda>c. \<not> is_digit c) s then Inl ValueError
      else Inl Unmodelled)"

fun digits_of_nat :: "nat \<Rightarrow> string" where
  "digits_of_nat n =
     (if n < 10 then [char_of (48 + n)]
      else digits_of_nat (n div 10) @ [char_of (48 + n mod 10)])"

definition py_str :: "int \<Rightarrow> string" where
  "py_str v = (if v < 0 then CHR ''-'' # digits_of_nat (nat (- v)) else digits_of_nat (nat v))"

text \<open>
  \<^verbatim>\<open>template.format(*args)\<close> for templates whose only replacement fields are
  \<^verbatim>\<open>{}\<close>: doubled braces are literal braces, a single closing brace or a trailing
  opening brace raises ValueError, a field without an argument left raises IndexError,
  any other field is left open. \<open>after s r\<close> puts \<open>s\<close> in front of the string
  that \<open>r\<close> returns.
\<close>

definition after :: "string \<Rightarrow> (py_error + string) option \<Rightarrow> (py_error + string) option" where
  "after s r =
     (case r of
        None \<Rightarrow> None
      | Some (Inl e) \<Rightarrow> Some (Inl e)
      | Some (Inr t) \<Rightarrow> Some (Inr (s @ t)))"

fun py_format :: "string \<Rightarrow> string list \<Rightarrow> (py_error + string) option" where
  "py_format [] args = Some (Inr [])"
| "py_format [c] args =
     (if c = CHR ''{'' \<or> c = CHR ''}'' then Some (Inl ValueError) else Some (Inr [c]))"
| "py_format (c # d # cs) args =
     (if c = CHR ''{'' then
        (if d = CHR ''{'' then after ''{'' (py_format cs args)
         else if d = CHR ''}'' then
           (case args of
              [] \<Rightarrow> Some (Inl IndexError)
            | a # as \<Rightarrow> after a (py_format cs as))
         else None)
      else if c = CHR ''}'' then
        (if d = CHR ''}'' then after ''}'' (py_format cs args)
         else Some (Inl ValueError))
      else after [c] (py_format (d # cs) args))"

subsection \<open>Column names (\<^verbatim>\<open>COLUMN_NAME_RE\<close>, \<^verbatim>\<open>is_column_name\<close>, \<^verbatim>\<open>parse_column_name\<close>)\<close>

text \<open>
  A match of \<^verbatim>\<open>\d+\:[\w\d_]+\<close> at the start of a string, as its length: the digits
  are taken greedily, and giving one back never helps, since the character after a
  shorter run is a digit and not the colon; the same holds for the word characters.
\<close>

definition match_column_name :: "string \<Rightarrow> nat option" where
  "match_column_name s =
     (let ds = takeWhile is_digit s; r = dropWhile is_digit s in
      if ds = [] then None
      else (case r of
              [] \<Rightarrow> None
            | c # r' \<Rightarrow>
                if c = CHR '':'' \<and> takeWhile is_word r' \<noteq> []
                then Some (length ds + 1 + length (takeWhile is_word r'))
                else None))"

text \<open>
  \<^verbatim>\<open>re.match('^' + COLUMN_NAME_RE + '$', colname)\<close>: the match ends at the end of the
  string, or just before a newline that ends the string (Python's \<^verbatim>\<open>$\<close>).
\<close>

definition is_column_name :: "string \<Rightarrow> bool" where
  "is_column_name colname =
     (case match_column_name colname of
        None \<Rightarrow> False
      | Some n \<Rightarrow> n = length colname \<or> drop n colname = [newline])"

text \<open>
  \<^verbatim>\<open>re.finditer(COLUMN_NAME_RE, colname)\<close>, as the list of the spans of the matches:
  the leftmost match, then the search goes on after it. The second argument is the
  position of the first character of the first argument in \<^verbatim>\<open>colname\<close>.
\<close>

lemma match_column_name_pos:
  "match_column_name s = Some n \<Longrightarrow> 0 < n \<and> n \<le> length s"
proof -
  assume a: "match_column_name s = Some n"
  define ds where "ds = takeWhile is_digit s"
  define r where "r = dropWhile is_digit s"
  have s: "s = ds @ r" by (simp add: ds_def r_def)
  from a obtain c r' where r: "r = c # r'" and n: "n = length ds + 1 + length (takeWhile is_word r')"
    by (auto simp: match_column_name_def Let_def ds_def r_def split: if_splits list.splits)
  have "length (takeWhile is_word r') \<le> length r'"
    by (rule length_takeWhile_le)
  with s r n show ?thesis by simp
qed

function finditer_columns :: "string \<Rightarrow> nat \<Rightarrow> (nat \<times> nat) list" where
  "finditer_columns s pos =
     (if s = [] then []
      else (case match_column_name s of
              Some n \<Rightarrow> (pos, pos + n) # finditer_columns (drop n s) (pos + n)
            | None \<Rightarrow> finditer_columns (tl s) (pos + 1)))"
  by pat_completeness auto
termination
proof (relation "measure (\<lambda>(s, pos). length s)")
  show "wf (measure (\<lambda>(s, pos). length s))" by simp
next
  fix s :: string and pos n :: nat
  assume "s \<noteq> []" "match_column_name s = Some n"
  then show "((drop n s, pos + n), (s, pos)) \<in> measure (\<lambda>(s, pos). length s)"
    using match_column_name_pos [of s n] by simp
next
  fix s :: string and pos :: nat
  assume "s \<noteq> []"
  then show "((tl s, pos + 1), (s, pos)) \<in> measure (\<lambda>(s, pos). length s)"
    by simp
qed

declare finditer_columns.simps [simp del]

text \<open>
  \<^verbatim>\<open>parse_column_name\<close>: the unpacking of \<^verbatim>\<open>colname.split(':')\<close> raises ValueError
  unless there are two pieces, \<^verbatim>\<open>colnames_list[i]\<close> raises IndexError, \<^verbatim>\<open>index\<close>
  raises ValueError.
\<close>

definition parse_column_name :: "string \<Rightarrow> string list list \<Rightarrow> py_error + nat \<times> nat" where
  "parse_column_name colname colnames_list =
     (case py_split CHR '':'' colname [] of
        [i, field] \<Rightarrow>
          (case py_int i of
             Inl e \<Rightarrow> Inl e
           | Inr i \<Rightarrow>
               if i < length colnames_list
               then (case py_index (colnames_list ! i) field of
                       Inl e \<Rightarrow> Inl e
                     | Inr j \<Rightarrow> Inr (i, j))
               else Inl IndexError)
      | _ \<Rightarrow> Inl ValueError)"

text \<open>
  The \<^verbatim>\<open>try\<close> around each call of \<^verbatim>\<open>parse_column_name\<close>: a ValueError becomes
  \<^verbatim>\<open>Exception('error: unknown column name (%s)' % colname)\<close>, any other exception
  passes through.
\<close>

definition unknown_column :: "string \<Rightarrow> py_error" where
  "unknown_column colname = Exception (''error: unknown column name ('' @ colname @ '')'')"

definition parse_or_unknown :: "string \<Rightarrow> string list list \<Rightarrow> py_error + nat \<times> nat" where
  "parse_or_unknown colname colnames_list =
     (case parse_column_name colname colnames_list of
        Inl e \<Rightarrow> if e = ValueError then Inl (unknown_column colname) else Inl e
      | Inr p \<Rightarrow> Inr p)"

subsection \<open>Output columns (\<^verbatim>\<open>Expression\<close>)\<close>

text \<open>
  The two fields of an \<^verbatim>\<open>Expression\<close> object, \<^verbatim>\<open>expr_\<close> and \<^verbatim>\<open>pars_\<close>. The
  second is a pair for a plain column and a list of pairs for a formula.
\<close>

datatype column_refs = Column nat nat | Columns "(nat \<times> nat) list"

record expression =
  expr :: string
  pars :: column_refs

text \<open>
  \<^verbatim>\<open>Expression.__init__\<close>. \<open>parse_matches\<close> is the loop over the matches of
  \<^verbatim>\<open>finditer\<close>, \<open>fix_positions\<close> the loop that puts \<^verbatim>\<open>{}\<close> in place of each match,
  from the last to the first.
\<close>

fun parse_matches ::
  "string \<Rightarrow> (nat \<times> nat) list \<Rightarrow> string list list \<Rightarrow> py_error + (nat \<times> nat) list" where
  "parse_matches colname [] colnames_list = Inr []"
| "parse_matches colname ((i, j) # spans) colnames_list =
     (case parse_or_unknown (take (j - i) (drop i colname)) colnames_list of
        Inl e \<Rightarrow> Inl e
      | Inr p \<Rightarrow>
          (case parse_matches colname spans colnames_list of
             Inl e \<Rightarrow> Inl e
           | Inr ps \<Rightarrow> Inr (p # ps)))"

definition fix_positions :: "string \<Rightarrow> (nat \<times> nat) list \<Rightarrow> string" where
  "fix_positions colname pos_list =
     foldl (\<lambda>colname (i, j). take i colname @ ''{}'' @ drop j colname) colname (rev pos_list)"

definition Expression :: "string \<Rightarrow> string list list \<Rightarrow> py_error + expression" where
  "Expression colname colnames_list =
     (if is_column_name colname
      then (case parse_or_unknown colname colnames_list of
              Inl e \<Rightarrow> Inl e
            | Inr (i, j) \<Rightarrow> Inr \<lparr>expr = [], pars = Column i j\<rparr>)
      else (let pos_list = finditer_columns colname 0 in
            case parse_matches colname pos_list colnames_list of
              Inl e \<Rightarrow> Inl e
            | Inr ps \<Rightarrow> Inr \<lparr>expr = fix_positions colname pos_list, pars = Columns ps\<rparr>))"

subsection \<open>Python's \<^verbatim>\<open>eval\<close> on sums of integers\<close>

text \<open>
  \<^verbatim>\<open>Expression.run\<close> hands the formula, with the cells put in, to \<^verbatim>\<open>eval\<close>. The
  model of \<^verbatim>\<open>eval\<close> covers the expressions made of decimal integer literals, names,
  the signs \<^verbatim>\<open>+\<close> and \<^verbatim>\<open>-\<close> (unary and binary) and blanks. On every other text
  (a float, a division, a bracket, a quote) the result is \<open>None\<close>: the model leaves
  open what \<^verbatim>\<open>eval\<close> does.

  Two limits of CPython are respected by leaving open what lies beyond them. Versions
  3.11 and later refuse to convert between a string and an integer of more than a
  configured number of digits, 4300 by default and never fewer than 640
  (\<^verbatim>\<open>sys.int_info.str_digits_check_threshold\<close>); earlier versions have no such limit.
  The parser and the compiler limit the nesting of an expression, and a sum nests as
  deep as it is long: the model covers the texts of at most 100 lexemes.
\<close>

definition str_digits_check_threshold :: nat where
  "str_digits_check_threshold = 640"

definition max_lexemes :: nat where
  "max_lexemes = 100"

text \<open>
  The text is cut into lexemes: maximal runs of word characters, and single other
  characters, blanks dropped. A lexeme is a sign, a decimal literal (no leading zero,
  unless all digits are zero), or a name that is not a keyword; any other lexeme (a
  float, a hexadecimal literal, another operator, a bracket, a quote) leaves the model.
\<close>

datatype token = TInt nat | TName string | TPlus | TMinus

fun lexemes :: "string \<Rightarrow> string \<Rightarrow> string list" where
  "lexemes [] cur = (if cur = [] then [] else [cur])"
| "lexemes (c # cs) cur =
     (if is_word c then lexemes cs (cur @ [c])
      else (if cur = [] then [] else [cur]) @
           (if c = CHR '' '' then [] else [[c]]) @ lexemes cs [])"

definition py_keywords :: "string list" where
  "py_keywords =
     [''False'', ''None'', ''True'', ''and'', ''as'', ''assert'', ''async'', ''await'',
      ''break'', ''class'', ''continue'', ''def'', ''del'', ''elif'', ''else'', ''except'',
      ''finally'', ''for'', ''from'', ''global'', ''if'', ''import'', ''in'', ''is'',
      ''lambda'', ''nonlocal'', ''not'', ''or'', ''pass'', ''raise'', ''return'', ''try'',
      ''while'', ''with'', ''yield'']"

definition decimal_literal :: "string \<Rightarrow> bool" where
  "decimal_literal ds =
     (ds \<noteq> [] \<and> list_all is_digit ds \<and>
      (hd ds \<noteq> CHR ''0'' \<or> list_all (\<lambda>c. c = CHR ''0'') ds))"

definition classify :: "string \<Rightarrow> token option" where
  "classify lx =
     (if lx = ''+'' then Some TPlus
      else if lx = ''-'' then Some TMinus
      else if decimal_literal lx \<and> length lx \<le> str_digits_check_threshold
      then Some (TInt (nat_of_digits lx))
      else if lx \<noteq> [] \<and> list_all is_word lx \<and> \<not> is_digit (hd lx) \<and> lx \<notin> set py_keywords
      then Some (TName lx)
      else None)"

definition tokenize :: "string \<Rightarrow> token list option" where
  "tokenize s =
     (let lxs = lexemes s [] in
      if max_lexemes < length lxs then None else those (map classify lxs))"

text \<open>
  Parsing: operands separated by binary signs, each operand an atom after any number of
  unary signs. A term is kept as (subtracted, negated, atom). An operand that is missing
  or two atoms in a row are a SyntaxError, raised before anything is evaluated.
\<close>

datatype atom = Lit nat | Name string

datatype pstate = Operand bool bool | Operator

fun parse_sum ::
  "token list \<Rightarrow> pstate \<Rightarrow> (bool \<times> bool \<times> atom) list \<Rightarrow> py_error + (bool \<times> bool \<times> atom) list" where
  "parse_sum [] (Operand sub neg) acc = Inl SyntaxError"
| "parse_sum [] Operator acc = Inr acc"
| "parse_sum (TPlus # ts) (Operand sub neg) acc = parse_sum ts (Operand sub neg) acc"
| "parse_sum (TMinus # ts) (Operand sub neg) acc = parse_sum ts (Operand sub (\<not> neg)) acc"
| "parse_sum (TInt k # ts) (Operand sub neg) acc = parse_sum ts Operator (acc @ [(sub, neg, Lit k)])"
| "parse_sum (TName x # ts) (Operand sub neg) acc = parse_sum ts Operator (acc @ [(sub, neg, Name x)])"
| "parse_sum (TPlus # ts) Operator acc = parse_sum ts (Operand False False) acc"
| "parse_sum (TMinus # ts) Operator acc = parse_sum ts (Operand True False) acc"
| "parse_sum (TInt k # ts) Operator acc = Inl SyntaxError"
| "parse_sum (TName x # ts) Operator acc = Inl SyntaxError"

text \<open>
  Names. \<^verbatim>\<open>eval\<close> sees the locals of \<^verbatim>\<open>run\<close>, the globals of the module and the
  builtins. A name that none of them binds raises NameError. \<open>maybe_bound\<close> holds of
  every name that may be bound there: the locals, the module's names, the builtins of
  Python 2 and 3 that start with a lower-case letter, and every name that starts with an
  upper-case letter or an underscore; the soft keywords \<^verbatim>\<open>match\<close> and \<^verbatim>\<open>case\<close>
  are counted with them. What a name that may be bound evaluates to is left open.
\<close>

definition bound_names :: "string list" where
  "bound_names =
     [''self'', ''lines'', ''vals'',
      ''argparse'', ''functools'', ''re'', ''sys'', ''default_values'', ''is_column_name'',
      ''parse_column_name'', ''read_data'', ''parse_csv'', ''get_field_list'',
      ''get_match_list'', ''get_options'', ''main'',
      ''abs'', ''aiter'', ''all'', ''anext'', ''any'', ''ascii'', ''bin'', ''bool'',
      ''breakpoint'', ''bytearray'', ''bytes'', ''callable'', ''chr'', ''classmethod'',
      ''compile'', ''complex'', ''copyright'', ''credits'', ''delattr'', ''dict'', ''dir'',
      ''divmod'', ''enumerate'', ''eval'', ''exec'', ''exit'', ''filter'', ''float'',
      ''format'', ''frozenset'', ''getattr'', ''globals'', ''hasattr'', ''hash'', ''help'',
      ''hex'', ''id'', ''input'', ''int'', ''isinstance'', ''issubclass'', ''iter'', ''len'',
      ''license'', ''list'', ''locals'', ''map'', ''max'', ''memoryview'', ''min'', ''next'',
      ''object'', ''oct'', ''open'', ''ord'', ''pow'', ''print'', ''property'', ''quit'',
      ''range'', ''repr'', ''reversed'', ''round'', ''set'', ''setattr'', ''slice'',
      ''sorted'', ''staticmethod'', ''str'', ''sum'', ''super'', ''tuple'', ''type'',
      ''vars'', ''zip'',
      ''apply'', ''basestring'', ''buffer'', ''cmp'', ''coerce'', ''execfile'', ''file'',
      ''intern'', ''long'', ''raw_input'', ''reduce'', ''reload'', ''unichr'', ''unicode'',
      ''xrange'', ''match'', ''case'']"

definition maybe_bound :: "string \<Rightarrow> bool" where
  "maybe_bound x =
     (x \<in> set bound_names \<or>
      (case x of [] \<Rightarrow> True | c # _ \<Rightarrow> c \<in> set ''ABCDEFGHIJKLMNOPQRSTUVWXYZ_''))"

definition eval_atom :: "atom \<Rightarrow> (py_error + int) option" where
  "eval_atom a =
     (case a of
        Lit k \<Rightarrow> Some (Inr (int k))
      | Name x \<Rightarrow> if maybe_bound x then None else Some (Inl (NameError x)))"

text \<open>
  Evaluation, from left to right; the second argument is the value so far.
\<close>

fun eval_sum :: "(bool \<times> bool \<times> atom) list \<Rightarrow> int \<Rightarrow> (py_error + int) option" where
  "eval_sum [] acc = Some (Inr acc)"
| "eval_sum ((sub, neg, a) # ts) acc =
     (case eval_atom a of
        None \<Rightarrow> None
      | Some (Inl e) \<Rightarrow> Some (Inl e)
      | Some (Inr v) \<Rightarrow>
          (let operand = (if neg then - v else v)
           in eval_sum ts (if sub then acc - operand else acc + operand)))"

definition py_eval :: "string \<Rightarrow> (py_error + int) option" where
  "py_eval s =
     (case tokenize s of
        None \<Rightarrow> None
      | Some ts \<Rightarrow>
          (case parse_sum ts (Operand False False) [] of
             Inl e \<Rightarrow> Some (Inl e)
           | Inr terms \<Rightarrow> eval_sum terms 0))"

text \<open>
  \<^verbatim>\<open>str(v)\<close> of the integer that \<^verbatim>\<open>eval\<close> returned, left open beyond the limit on
  the digits.
\<close>

definition str_of_value :: "int \<Rightarrow> (py_error + string) option" where
  "str_of_value v =
     (if str_digits_check_threshold < length (digits_of_nat (nat \<bar>v\<bar>)) then None
      else Some (Inr (py_str v)))"

subsection \<open>\<^verbatim>\<open>Expression.run\<close>\<close>

text \<open>
  \<^verbatim>\<open>lines[i][j]\<close>, and \<^verbatim>\<open>run\<close>. With an empty \<^verbatim>\<open>expr_\<close> the method subscripts
  \<^verbatim>\<open>pars_\<close>: a pair gives the cell, an empty list raises IndexError, a non-empty list
  gives a pair where an index is needed, a TypeError. Otherwise the generator of the
  cells is consumed by the call of \<^verbatim>\<open>format\<close>, then the text is evaluated and the
  value turned into a string. The result is \<open>None\<close> where the model of
  \<^verbatim>\<open>format\<close>, \<^verbatim>\<open>eval\<close> or \<^verbatim>\<open>str\<close> leaves open what Python does.
\<close>

definition cell :: "row list \<Rightarrow> nat \<Rightarrow> nat \<Rightarrow> py_error + string" where
  "cell lines i j =
     (case subscript lines i of Inl e \<Rightarrow> Inl e | Inr r \<Rightarrow> subscript r j)"

definition run :: "expression \<Rightarrow> row list \<Rightarrow> (py_error + string) option" where
  "run self lines =
     (if expr self = [] then
        (case pars self of
           Column i j \<Rightarrow> Some (cell lines i j)
         | Columns [] \<Rightarrow> Some (Inl IndexError)
         | Columns (p # ps) \<Rightarrow> Some (Inl TypeError))
      else
        (case pars self of
           Column i j \<Rightarrow> Some (Inl TypeError)
         | Columns ps \<Rightarrow>
             (case collect (\<lambda>(i, j). cell lines i j) ps of
                Inl e \<Rightarrow> Some (Inl e)
              | Inr vals \<Rightarrow>
                  (case py_format (expr self) vals of
                     None \<Rightarrow> None
                   | Some (Inl e) \<Rightarrow> Some (Inl e)
                   | Some (Inr text) \<Rightarrow>
                       (case py_eval text of
                          None \<Rightarrow> None
                        | Some (Inl e) \<Rightarrow> Some (Inl e)
                        | Some (Inr v) \<Rightarrow> str_of_value v)))))"

subsection \<open>The join fields (\<^verbatim>\<open>get_field_list\<close>)\<close>

text \<open>
  The dictionary \<^verbatim>\<open>join_columns\<close> is an association list in insertion order;
  \<open>dict_set\<close> is \<^verbatim>\<open>d[k] = v\<close>. \<open>join_columns_of\<close> is the loop over the join
  list. The join list is \<open>None\<close> when the option \<^verbatim>\<open>--join\<close> was not given, and
  \<^verbatim>\<open>len(None)\<close> raises TypeError. The items are sorted by their keys, which are
  distinct.
\<close>

fun dict_set :: "('k \<times> 'v) list \<Rightarrow> 'k \<Rightarrow> 'v \<Rightarrow> ('k \<times> 'v) list" where
  "dict_set [] k v = [(k, v)]"
| "dict_set ((k', v') # d) k v =
     (if k' = k then (k, v) # d else (k', v') # dict_set d k v)"

fun join_columns_of ::
  "string list \<Rightarrow> string list list \<Rightarrow> (nat \<times> nat) list \<Rightarrow> py_error + (nat \<times> nat) list" where
  "join_columns_of [] colnames_list join_columns = Inr join_columns"
| "join_columns_of (join # joins) colnames_list join_columns =
     (case parse_or_unknown join colnames_list of
        Inl e \<Rightarrow> Inl e
      | Inr (i, c) \<Rightarrow> join_columns_of joins colnames_list (dict_set join_columns i c))"

definition get_field_list ::
  "'a list \<Rightarrow> string list option \<Rightarrow> string list list \<Rightarrow> py_error + nat list" where
  "get_field_list infile_list join_list colnames_list =
     (let numfiles = length infile_list in
      case join_list of
        None \<Rightarrow> Inl TypeError
      | Some joins \<Rightarrow>
          if numfiles \<noteq> length joins then Inl AssertionError
          else (case join_columns_of joins colnames_list [] of
                  Inl e \<Rightarrow> Inl e
                | Inr join_columns \<Rightarrow>
                    if set [0..<numfiles] \<noteq> set (map fst join_columns) then Inl AssertionError
                    else Inr (map snd (sort_key fst join_columns))))"

subsection \<open>The join matcher (\<^verbatim>\<open>get_match_list\<close>)\<close>

text \<open>
  \<^verbatim>\<open>row[join_field_list[i]]\<close>: both subscripts raise IndexError out of range.
\<close>

definition join_cell :: "row \<Rightarrow> nat list \<Rightarrow> nat \<Rightarrow> py_error + string" where
  "join_cell r jfl i =
     (if i < length jfl
      then (if jfl ! i < length r then Inr (r ! (jfl ! i)) else Inl IndexError)
      else Inl IndexError)"

text \<open>
  The inner loop \<^verbatim>\<open>for j in range(ii[i], len(lines_list[i]))\<close> with its \<^verbatim>\<open>else\<close>
  branch: the rows still to scan are the first argument, \<open>j\<close> is the index of the first
  of them. \<open>Some j\<close> is the \<^verbatim>\<open>break\<close> at row \<open>j\<close>, \<open>None\<close> is the \<^verbatim>\<open>else\<close> branch.
\<close>

fun scan_rows :: "row list \<Rightarrow> nat \<Rightarrow> nat list \<Rightarrow> nat \<Rightarrow> string \<Rightarrow> py_error + nat option" where
  "scan_rows [] j jfl i join_value = Inr None"
| "scan_rows (r # rs) j jfl i join_value =
     (case join_cell r jfl i of
        Inl e \<Rightarrow> Inl e
      | Inr jv \<Rightarrow> if jv = join_value then Inr (Some j)
                 else scan_rows rs (Suc j) jfl i join_value)"

text \<open>
  The loop \<^verbatim>\<open>for i in range(1, len(lines_list))\<close>: the table indices still to visit
  are the fifth argument, \<open>m\<close> is the list \<^verbatim>\<open>match\<close> built so far. \<open>None\<close> is
  \<^verbatim>\<open>match_found = False\<close>. The subscripts \<open>ii ! i\<close> and \<open>ll ! i\<close> are in range,
  since \<^verbatim>\<open>ii\<close> always has one counter per table.
\<close>

fun match_tables ::
  "table list \<Rightarrow> nat list \<Rightarrow> nat list \<Rightarrow> string \<Rightarrow> nat list \<Rightarrow> nat list
     \<Rightarrow> py_error + nat list option" where
  "match_tables ll jfl ii join_value [] m = Inr (Some m)"
| "match_tables ll jfl ii join_value (i # is) m =
     (case scan_rows (drop (ii ! i) (ll ! i)) (ii ! i) jfl i join_value of
        Inl e \<Rightarrow> Inl e
      | Inr None \<Rightarrow> Inr None
      | Inr (Some j) \<Rightarrow> match_tables ll jfl ii join_value is (m @ [j]))"

text \<open>
  \<^verbatim>\<open>no_finished_list\<close>: the list comprehension subscripts \<^verbatim>\<open>lines_list[i]\<close> for every
  counter, then \<^verbatim>\<open>functools.reduce\<close> without an initial value raises TypeError on the
  empty list.
\<close>

definition no_finished_list :: "nat list \<Rightarrow> table list \<Rightarrow> py_error + bool" where
  "no_finished_list ii ll =
     (if length ll < length ii then Inl IndexError
      else if ii = [] then Inl TypeError
      else Inr (list_all (\<lambda>i. ii ! i < length (ll ! i)) [0..<length ii]))"

lemma match_tables_prefix:
  "match_tables ll jfl ii v is m = Inr (Some m') \<Longrightarrow> \<exists>js. m' = m @ js"
proof (induction "is" arbitrary: m)
  case Nil
  then show ?case by simp
next
  case (Cons i "is")
  from Cons.prems obtain j where "match_tables ll jfl ii v is (m @ [j]) = Inr (Some m')"
    by (auto split: sum.splits option.splits)
  then obtain js where "m' = (m @ [j]) @ js"
    using Cons.IH by blast
  then show ?case by simp
qed

lemma no_finished_list_True:
  "no_finished_list ii ll = Inr True \<Longrightarrow> ii \<noteq> [] \<and> ii ! 0 < length (ll ! 0)"
proof -
  assume a: "no_finished_list ii ll = Inr True"
  then have ne: "ii \<noteq> []"
    by (auto simp: no_finished_list_def split: if_splits)
  from a have "\<forall>i\<in>set [0..<length ii]. ii ! i < length (ll ! i)"
    by (simp add: no_finished_list_def list_all_iff split: if_splits)
  moreover from ne have "0 \<in> set [0..<length ii]"
    by simp
  ultimately show ?thesis
    using ne by blast
qed

text \<open>
  The \<^verbatim>\<open>while\<close> loop. The state is the counter list \<open>ii\<close> and \<open>match_list\<close>.
\<close>

function match_loop ::
  "table list \<Rightarrow> nat list \<Rightarrow> nat list \<Rightarrow> nat list list \<Rightarrow> py_error + nat list list" where
  "match_loop ll jfl ii match_list =
     (case no_finished_list ii ll of
        Inl e \<Rightarrow> Inl e
      | Inr b \<Rightarrow>
          if \<not> b then Inr match_list
          else (case join_cell (ll ! 0 ! (ii ! 0)) jfl 0 of
                  Inl e \<Rightarrow> Inl e
                | Inr join_value \<Rightarrow>
                    (case match_tables ll jfl ii join_value [1..<length ll] [ii ! 0] of
                       Inl e \<Rightarrow> Inl e
                     | Inr None \<Rightarrow> match_loop ll jfl (ii[0 := ii ! 0 + 1]) match_list
                     | Inr (Some m) \<Rightarrow>
                         match_loop ll jfl (map (\<lambda>i. i + 1) m) (match_list @ [m]))))"
  by pat_completeness auto
termination
proof (relation "measure (\<lambda>(ll, jfl, ii, ml). length (ll ! 0) - ii ! 0)")
  show "wf (measure (\<lambda>(ll, jfl, ii, ml). length (ll ! 0) - ii ! 0))"
    by simp
next
  fix ll :: "table list" and jfl ii :: "nat list" and match_list :: "nat list list"
    and b :: bool and join_value :: string and x :: "nat list option"
  assume "no_finished_list ii ll = Inr b" "\<not> \<not> b"
  then have "ii \<noteq> [] \<and> ii ! 0 < length (ll ! 0)"
    using no_finished_list_True by simp
  then show "((ll, jfl, ii[0 := ii ! 0 + 1], match_list), (ll, jfl, ii, match_list))
      \<in> measure (\<lambda>(ll, jfl, ii, ml). length (ll ! 0) - ii ! 0)"
    by (cases ii) auto
next
  fix ll :: "table list" and jfl ii :: "nat list" and match_list :: "nat list list"
    and b :: bool and join_value :: string and x :: "nat list option" and m :: "nat list"
  assume nf: "no_finished_list ii ll = Inr b" "\<not> \<not> b"
    and mt: "match_tables ll jfl ii join_value [1..<length ll] [ii ! 0] = Inr x" "x = Some m"
  from nf have lt: "ii ! 0 < length (ll ! 0)"
    using no_finished_list_True by simp
  from mt obtain js where "m = [ii ! 0] @ js"
    using match_tables_prefix by blast
  with lt show "((ll, jfl, map (\<lambda>i. i + 1) m, match_list @ [m]), (ll, jfl, ii, match_list))
      \<in> measure (\<lambda>(ll, jfl, ii, ml). length (ll ! 0) - ii ! 0)"
    by auto
qed

definition get_match_list :: "table list \<Rightarrow> nat list \<Rightarrow> py_error + nat list list" where
  "get_match_list lines_list join_field_list =
     match_loop lines_list join_field_list (replicate (length lines_list) 0) []"

subsection \<open>The program (\<^verbatim>\<open>main\<close>)\<close>

text \<open>
  What a run leaves behind: \<open>Aborted e\<close> when \<open>e\<close> is raised before the output file
  is opened, \<open>Written rows None\<close> when the rows were written and the program ended,
  \<open>Written rows (Some e)\<close> when \<open>e\<close> was raised after the rows were written.
  \<open>Undetermined\<close> is the run in which an output column is evaluated whose result the
  model leaves open: the model does not say what that run leaves behind.
\<close>

datatype result = Aborted py_error | Written "string list" "py_error option" | Undetermined

text \<open>
  The list comprehension \<^verbatim>\<open>[expr.run(lines) for expr in expr_list]\<close>: the first
  exception ends it.
\<close>

fun run_all :: "expression list \<Rightarrow> row list \<Rightarrow> (py_error + string list) option" where
  "run_all [] lines = Some (Inr [])"
| "run_all (e # es) lines =
     (case run e lines of
        None \<Rightarrow> None
      | Some (Inl err) \<Rightarrow> Some (Inl err)
      | Some (Inr c) \<Rightarrow>
          (case run_all es lines of
             None \<Rightarrow> None
           | Some (Inl err) \<Rightarrow> Some (Inl err)
           | Some (Inr cs) \<Rightarrow> Some (Inr (c # cs))))"

text \<open>
  The body of the loop over the matches, and the loop; the last argument is what has
  been written so far.
\<close>

definition output_row ::
  "expression list \<Rightarrow> table list \<Rightarrow> nat list \<Rightarrow> (py_error + string) option" where
  "output_row expr_list lines_list row_list =
     (case collect (\<lambda>(i, l). subscript l i) (zip row_list lines_list) of
        Inl e \<Rightarrow> Some (Inl e)
      | Inr lines \<Rightarrow>
          (case run_all expr_list lines of
             None \<Rightarrow> None
           | Some (Inl e) \<Rightarrow> Some (Inl e)
           | Some (Inr out_cols) \<Rightarrow> Some (Inr (py_join '','' out_cols @ [newline]))))"

fun write_rows ::
  "expression list \<Rightarrow> table list \<Rightarrow> nat list list \<Rightarrow> string list \<Rightarrow> result" where
  "write_rows expr_list lines_list [] written = Written written None"
| "write_rows expr_list lines_list (row_list # match_list) written =
     (case output_row expr_list lines_list row_list of
        None \<Rightarrow> Undetermined
      | Some (Inl e) \<Rightarrow> Written written (Some e)
      | Some (Inr line) \<Rightarrow> write_rows expr_list lines_list match_list (written @ [line]))"

text \<open>
  \<^verbatim>\<open>main\<close>, after the options are parsed. \<open>inputs\<close> holds, for each input file in
  order, what \<^verbatim>\<open>parse_csv(read_data(infile), sep)\<close> returned: the column names and
  the rows. \<^verbatim>\<open>get_field_list\<close> uses the list of the input files for its length only.
\<close>

definition main ::
  "(string list \<times> table) list \<Rightarrow> string list option \<Rightarrow> string list \<Rightarrow> result" where
  "main inputs join out_cols =
     (let colnames_list = map fst inputs; lines_list = map snd inputs in
      case get_field_list inputs join colnames_list of
        Inl e \<Rightarrow> Aborted e
      | Inr join_field_list \<Rightarrow>
          (case get_match_list lines_list join_field_list of
             Inl e \<Rightarrow> Aborted e
           | Inr match_list \<Rightarrow>
               (case collect (\<lambda>colname. Expression colname colnames_list) out_cols of
                  Inl e \<Rightarrow> Aborted e
                | Inr expr_list \<Rightarrow> write_rows expr_list lines_list match_list [])))"

subsection \<open>The matcher of the specification\<close>

text \<open>
  The transition rule as the specification words it: the same loop body, run until the
  counter of table 0 reaches the end of table 0, and stopped by nothing else. The test
  \<^verbatim>\<open>ii[0] < len(lines_list[0])\<close> raises IndexError when there is no table 0.
\<close>

function match_loop_table0 ::
  "table list \<Rightarrow> nat list \<Rightarrow> nat list \<Rightarrow> nat list list \<Rightarrow> py_error + nat list list" where
  "match_loop_table0 ll jfl ii match_list =
     (if ii = [] \<or> ll = [] then Inl IndexError
      else if \<not> ii ! 0 < length (ll ! 0) then Inr match_list
      else (case join_cell (ll ! 0 ! (ii ! 0)) jfl 0 of
              Inl e \<Rightarrow> Inl e
            | Inr join_value \<Rightarrow>
                (case match_tables ll jfl ii join_value [1..<length ll] [ii ! 0] of
                   Inl e \<Rightarrow> Inl e
                 | Inr None \<Rightarrow> match_loop_table0 ll jfl (ii[0 := ii ! 0 + 1]) match_list
                 | Inr (Some m) \<Rightarrow>
                     match_loop_table0 ll jfl (map (\<lambda>i. i + 1) m) (match_list @ [m]))))"
  by pat_completeness auto
termination
proof (relation "measure (\<lambda>(ll, jfl, ii, ms). length (ll ! 0) - ii ! 0)")
  show "wf (measure (\<lambda>(ll, jfl, ii, ms). length (ll ! 0) - ii ! 0))"
    by simp
next
  fix ll :: "table list" and jfl ii :: "nat list" and match_list :: "nat list list"
  assume "\<not> (ii = [] \<or> ll = [])" "\<not> \<not> ii ! 0 < length (ll ! 0)"
  then show "((ll, jfl, ii[0 := ii ! 0 + 1], match_list), (ll, jfl, ii, match_list))
      \<in> measure (\<lambda>(ll, jfl, ii, ms). length (ll ! 0) - ii ! 0)"
    by (cases ii) auto
next
  fix ll :: "table list" and jfl ii :: "nat list" and match_list :: "nat list list"
    and join_value :: string and x :: "nat list option" and m :: "nat list"
  assume lt: "\<not> \<not> ii ! 0 < length (ll ! 0)"
    and mt: "match_tables ll jfl ii join_value [1..<length ll] [ii ! 0] = Inr x" "x = Some m"
  from mt obtain js where "m = [ii ! 0] @ js"
    using match_tables_prefix by blast
  with lt show "((ll, jfl, map (\<lambda>i. i + 1) m, match_list @ [m]), (ll, jfl, ii, match_list))
      \<in> measure (\<lambda>(ll, jfl, ii, ms). length (ll ! 0) - ii ! 0)"
    by auto
qed

definition get_match_list_table0 :: "table list \<Rightarrow> nat list \<Rightarrow> py_error + nat list list" where
  "get_match_list_table0 lines_list join_field_list =
     match_loop_table0 lines_list join_field_list (replicate (length lines_list) 0) []"

subsection \<open>Predicates of the statements\<close>

text \<open>
  Well-formed input of the matcher: a join column for every table, inside every row of
  its table.
\<close>

definition join_columns_in_bounds :: "table list \<Rightarrow> nat list \<Rightarrow> bool" where
  "join_columns_in_bounds ll jfl =
     (length ll \<le> length jfl \<and>
      list_all (\<lambda>i. list_all (\<lambda>r. jfl ! i < length r) (ll ! i)) [0..<length ll])"

text \<open>
  What a match tuple found from the counters \<open>ii\<close> satisfies: one row index per table,
  at or after the table's counter, inside the table, with the join cell of every table
  equal to the join cell of table 0. \<open>rows_before n a b\<close>: tuple \<open>a\<close> is below tuple
  \<open>b\<close> in each of the first \<open>n\<close> coordinates.
\<close>

definition good_match :: "table list \<Rightarrow> nat list \<Rightarrow> nat list \<Rightarrow> nat list \<Rightarrow> bool" where
  "good_match ll jfl ii m =
     (length m = length ll \<and>
      (\<forall>i<length ll. ii ! i \<le> m ! i \<and> m ! i < length (ll ! i) \<and> i < length jfl \<and>
          jfl ! i < length (ll ! i ! (m ! i)) \<and>
          ll ! i ! (m ! i) ! (jfl ! i) = ll ! 0 ! (m ! 0) ! (jfl ! 0)))"

definition rows_before :: "nat \<Rightarrow> nat list \<Rightarrow> nat list \<Rightarrow> bool" where
  "rows_before n a b = (\<forall>i<n. a ! i < b ! i)"

text \<open>
  The column references of an output column: the column itself when it is a column name,
  the matches of \<^verbatim>\<open>finditer\<close> otherwise; the file index a reference names; the shape
  of a reference; the two exceptions a reference can raise.
\<close>

definition column_tokens :: "string \<Rightarrow> string list" where
  "column_tokens colname =
     (if is_column_name colname then [colname]
      else map (\<lambda>(i, j). take (j - i) (drop i colname)) (finditer_columns colname 0))"

definition file_index :: "string \<Rightarrow> py_error + nat" where
  "file_index tok =
     (case py_split CHR '':'' tok [] of [i, field] \<Rightarrow> py_int i | _ \<Rightarrow> Inl ValueError)"

definition token_shape :: "string \<Rightarrow> bool" where
  "token_shape tok =
     (\<exists>ds ws. tok = ds @ CHR '':'' # ws \<and> ds \<noteq> [] \<and> list_all is_digit ds \<and>
        CHR '':'' \<notin> set ws)"

definition column_error :: "py_error \<Rightarrow> bool" where
  "column_error e = (e = IndexError \<or> (\<exists>t. e = unknown_column t))"













subsection \<open>Example inputs\<close>

text \<open>
  Scenario A of the specification, with two more inputs: the same tables with table 1 in
  the order of table 0, and two tables where a row of table 0 is too short for its join
  column.
\<close>

definition two_files_colnames :: "string list list" where
  "two_files_colnames = [[''city'', ''pop''], [''city'', ''area'']]"

definition scenario_a_lines :: "table list" where
  "scenario_a_lines =
     [[[''NYC'', ''8''], [''LA'', ''4'']],
      [[''LA'', ''500''], [''NYC'', ''300'']]]"

definition scenario_a :: "(string list \<times> table) list" where
  "scenario_a = zip two_files_colnames scenario_a_lines"

definition two_match_lines :: "table list" where
  "two_match_lines =
     [[[''LA'', ''4''], [''NYC'', ''8'']],
      [[''LA'', ''500''], [''NYC'', ''300'']]]"

definition short_row_lines :: "table list" where
  "short_row_lines = [[[''1'', ''a''], [''x'']], [[''1'', ''a'']]]"





section \<open>Properties of the matcher\<close>

lemma join_cell_Inr:
  "join_cell r jfl i = Inr v \<longleftrightarrow> i < length jfl \<and> jfl ! i < length r \<and> r ! (jfl ! i) = v"
  by (auto simp: join_cell_def)

lemma scan_rows_Some:
  "scan_rows rs j jfl i v = Inr (Some k) \<Longrightarrow>
     j \<le> k \<and> k - j < length rs \<and> i < length jfl \<and> jfl ! i < length (rs ! (k - j)) \<and>
     rs ! (k - j) ! (jfl ! i) = v"
proof (induction rs arbitrary: j)
  case Nil
  then show ?case by simp
next
  case (Cons r rs)
  from Cons.prems obtain jv where jv: "join_cell r jfl i = Inr jv"
    by (auto split: sum.splits)
  show ?case
  proof (cases "jv = v")
    case True
    with Cons.prems jv show ?thesis
      by (auto simp: join_cell_Inr)
  next
    case False
    with Cons.prems jv have "scan_rows rs (Suc j) jfl i v = Inr (Some k)"
      by simp
    from Cons.IH [OF this] show ?thesis
      by (auto simp: Suc_diff_le)
  qed
qed

lemma scan_rows_drop_Some:
  assumes "scan_rows (drop c t) c jfl i v = Inr (Some k)"
  shows "c \<le> k \<and> k < length t \<and> i < length jfl \<and> jfl ! i < length (t ! k) \<and>
     t ! k ! (jfl ! i) = v"
proof -
  from scan_rows_Some [OF assms]
  have a: "c \<le> k" "k - c < length (drop c t)" "i < length jfl"
    "jfl ! i < length (drop c t ! (k - c))" "drop c t ! (k - c) ! (jfl ! i) = v"
    by auto
  from a(1,2) have lt: "k < length t" by simp
  with a(1) have "drop c t ! (k - c) = t ! k" by simp
  with a lt show ?thesis by simp
qed

lemma match_tables_Some:
  "match_tables ll jfl ii v is m = Inr (Some m') \<Longrightarrow>
     \<exists>js. m' = m @ js \<and> length js = length is \<and>
       (\<forall>k<length is. ii ! (is ! k) \<le> js ! k \<and> js ! k < length (ll ! (is ! k)) \<and>
          is ! k < length jfl \<and> jfl ! (is ! k) < length (ll ! (is ! k) ! (js ! k)) \<and>
          ll ! (is ! k) ! (js ! k) ! (jfl ! (is ! k)) = v)"
proof (induction "is" arbitrary: m)
  case Nil
  then show ?case by simp
next
  case (Cons i "is")
  from Cons.prems obtain j where
    j: "scan_rows (drop (ii ! i) (ll ! i)) (ii ! i) jfl i v = Inr (Some j)"
    and rest: "match_tables ll jfl ii v is (m @ [j]) = Inr (Some m')"
    by (auto split: sum.splits option.splits)
  from Cons.IH [OF rest] obtain js where js: "m' = (m @ [j]) @ js" "length js = length is"
    "\<forall>k<length is. ii ! (is ! k) \<le> js ! k \<and> js ! k < length (ll ! (is ! k)) \<and>
          is ! k < length jfl \<and> jfl ! (is ! k) < length (ll ! (is ! k) ! (js ! k)) \<and>
          ll ! (is ! k) ! (js ! k) ! (jfl ! (is ! k)) = v"
    by blast
  note hd = scan_rows_drop_Some [OF j]
  have "\<forall>k<length (i # is). ii ! ((i # is) ! k) \<le> (j # js) ! k \<and>
          (j # js) ! k < length (ll ! ((i # is) ! k)) \<and>
          (i # is) ! k < length jfl \<and>
          jfl ! ((i # is) ! k) < length (ll ! ((i # is) ! k) ! ((j # js) ! k)) \<and>
          ll ! ((i # is) ! k) ! ((j # js) ! k) ! (jfl ! ((i # is) ! k)) = v"
  proof (intro allI impI)
    fix k assume "k < length (i # is)"
    then show "ii ! ((i # is) ! k) \<le> (j # js) ! k \<and>
          (j # js) ! k < length (ll ! ((i # is) ! k)) \<and>
          (i # is) ! k < length jfl \<and>
          jfl ! ((i # is) ! k) < length (ll ! ((i # is) ! k) ! ((j # js) ! k)) \<and>
          ll ! ((i # is) ! k) ! ((j # js) ! k) ! (jfl ! ((i # is) ! k)) = v"
      using hd js(3) by (cases k) auto
  qed
  with js(1,2) show ?case
    by (intro exI [of _ "j # js"]) simp
qed

lemma match_step_good:
  assumes nf: "no_finished_list ii ll = Inr True"
    and len: "length ii = length ll"
    and jc: "join_cell (ll ! 0 ! (ii ! 0)) jfl 0 = Inr v"
    and mt: "match_tables ll jfl ii v [1..<length ll] [ii ! 0] = Inr (Some m)"
  shows "good_match ll jfl ii m"
proof -
  from no_finished_list_True [OF nf] have ne: "ii \<noteq> []" and lt0: "ii ! 0 < length (ll ! 0)"
    by auto
  with len have N: "0 < length ll" by auto
  from match_tables_Some [OF mt] obtain js where js: "m = [ii ! 0] @ js"
    "length js = length [1..<length ll]"
    "\<forall>k<length [1..<length ll]. ii ! ([1..<length ll] ! k) \<le> js ! k \<and>
        js ! k < length (ll ! ([1..<length ll] ! k)) \<and>
        [1..<length ll] ! k < length jfl \<and>
        jfl ! ([1..<length ll] ! k) < length (ll ! ([1..<length ll] ! k) ! (js ! k)) \<and>
        ll ! ([1..<length ll] ! k) ! (js ! k) ! (jfl ! ([1..<length ll] ! k)) = v"
    by blast
  from js(1,2) N have lm: "length m = length ll" by simp
  from js(1) have m0: "m ! 0 = ii ! 0" by simp
  from jc have c0: "0 < length jfl" "jfl ! 0 < length (ll ! 0 ! (ii ! 0))"
    "ll ! 0 ! (ii ! 0) ! (jfl ! 0) = v"
    by (auto simp: join_cell_Inr)
  have "ii ! i \<le> m ! i \<and> m ! i < length (ll ! i) \<and> i < length jfl \<and>
          jfl ! i < length (ll ! i ! (m ! i)) \<and>
          ll ! i ! (m ! i) ! (jfl ! i) = ll ! 0 ! (m ! 0) ! (jfl ! 0)" if i: "i < length ll" for i
  proof (cases i)
    case 0
    with m0 lt0 c0 show ?thesis by simp
  next
    case (Suc k)
    with i have k: "k < length [1..<length ll]" by simp
    with Suc have idx: "[1..<length ll] ! k = i" by simp
    from js(1) Suc have mi: "m ! i = js ! k" by simp
    from js(3) k idx mi m0 c0 show ?thesis
      by auto
  qed
  with lm show ?thesis
    by (simp add: good_match_def)
qed

text \<open>
  The invariant rule of the loop: a property of the counters and the match list that
  holds at the start and is kept by both branches of the body holds of what the loop
  returns.
\<close>

lemma match_loop_invariant:
  assumes run: "match_loop ll jfl ii ms = Inr res"
    and len: "length ii = length ll"
    and init: "I ii ms"
    and skip: "\<And>ii ms. I ii ms \<Longrightarrow> length ii = length ll \<Longrightarrow> ii \<noteq> [] \<Longrightarrow>
        ii ! 0 < length (ll ! 0) \<Longrightarrow> I (ii[0 := ii ! 0 + 1]) ms"
    and emit: "\<And>ii ms m. I ii ms \<Longrightarrow> length ii = length ll \<Longrightarrow> good_match ll jfl ii m \<Longrightarrow>
        I (map (\<lambda>i. i + 1) m) (ms @ [m])"
  shows "\<exists>ii'. length ii' = length ll \<and> I ii' res"
  using assms
proof (induction ll jfl ii ms rule: match_loop.induct)
  case (1 ll jfl ii ms)
  note run = "1.prems"(1) and len = "1.prems"(2) and init = "1.prems"(3)
    and skip = "1.prems"(4) and emit = "1.prems"(5)
  from run obtain b where b: "no_finished_list ii ll = Inr b"
    by (subst (asm) match_loop.simps) (auto split: sum.splits)
  show ?case
  proof (cases b)
    case False
    with b run len init show ?thesis
      by (subst (asm) match_loop.simps) auto
  next
    case True
    with b have nf: "no_finished_list ii ll = Inr True" by simp
    from run nf obtain v where v: "join_cell (ll ! 0 ! (ii ! 0)) jfl 0 = Inr v"
      by (subst (asm) match_loop.simps) (auto split: sum.splits)
    from run nf v obtain x where
      x: "match_tables ll jfl ii v [1..<length ll] [ii ! 0] = Inr x"
      by (subst (asm) match_loop.simps) (auto split: sum.splits)
    show ?thesis
    proof (cases x)
      case None
      with run nf v x have r: "match_loop ll jfl (ii[0 := ii ! 0 + 1]) ms = Inr res"
        by (subst (asm) match_loop.simps) simp
      from no_finished_list_True [OF nf] len init
      have i': "I (ii[0 := ii ! 0 + 1]) ms"
        by (intro skip) auto
      have l': "length (ii[0 := ii ! 0 + 1]) = length ll"
        using len by simp
      from True have nn: "\<not> \<not> b" by simp
      show ?thesis
        by (rule "1.IH"(1) [OF b nn v x None r l' i' skip emit])
    next
      case (Some m)
      with run nf v x have r: "match_loop ll jfl (map (\<lambda>i. i + 1) m) (ms @ [m]) = Inr res"
        by (subst (asm) match_loop.simps) simp
      from x Some have gm: "good_match ll jfl ii m"
        using match_step_good [OF nf len v] by simp
      then have l': "length (map (\<lambda>i. i + 1) m) = length ll"
        by (simp add: good_match_def)
      from gm len init have i': "I (map (\<lambda>i. i + 1) m) (ms @ [m])"
        by (intro emit)
      from True have nn: "\<not> \<not> b" by simp
      show ?thesis
        by (rule "1.IH"(2) [OF b nn v x Some r l' i' skip emit])
    qed
  qed
qed

lemma in_bounds_row:
  "join_columns_in_bounds ll jfl \<Longrightarrow> i < length ll \<Longrightarrow> r \<in> set (ll ! i) \<Longrightarrow>
     i < length jfl \<and> jfl ! i < length r"
  by (auto simp: join_columns_in_bounds_def list_all_iff)

lemma scan_rows_in_bounds:
  "i < length jfl \<Longrightarrow> \<forall>r\<in>set rs. jfl ! i < length r \<Longrightarrow> \<exists>x. scan_rows rs j jfl i v = Inr x"
  by (induction rs arbitrary: j) (auto simp: join_cell_def)

lemma scan_rows_drop_in_bounds:
  assumes "join_columns_in_bounds ll jfl" "i < length ll"
  shows "\<exists>x. scan_rows (drop c (ll ! i)) j jfl i v = Inr x"
proof -
  have "\<forall>r\<in>set (drop c (ll ! i)). jfl ! i < length r"
    using in_bounds_row [OF assms] by (auto dest: in_set_dropD)
  moreover have "i < length jfl"
    using assms by (simp add: join_columns_in_bounds_def)
  ultimately show ?thesis
    by (rule scan_rows_in_bounds [rotated])
qed

lemma match_tables_in_bounds:
  "join_columns_in_bounds ll jfl \<Longrightarrow> \<forall>i\<in>set is. i < length ll \<Longrightarrow>
     \<exists>x. match_tables ll jfl ii v is m = Inr x"
proof (induction "is" arbitrary: m)
  case Nil
  then show ?case by simp
next
  case (Cons i "is")
  from Cons.prems have "i < length ll" by simp
  from scan_rows_drop_in_bounds [OF Cons.prems(1) this, of "ii ! i" "ii ! i" v] obtain x where
    x: "scan_rows (drop (ii ! i) (ll ! i)) (ii ! i) jfl i v = Inr x" ..
  show ?case
  proof (cases x)
    case None
    with x show ?thesis by simp
  next
    case (Some j)
    from Cons.IH [of "m @ [j]"] Cons.prems
    obtain y where "match_tables ll jfl ii v is (m @ [j]) = Inr y"
      by auto
    with x Some show ?thesis by simp
  qed
qed

lemma match_tables_exhausted:
  "join_columns_in_bounds ll jfl \<Longrightarrow> \<forall>i\<in>set is. i < length ll \<Longrightarrow> k \<in> set is \<Longrightarrow>
     length (ll ! k) \<le> ii ! k \<Longrightarrow> match_tables ll jfl ii v is m = Inr None"
proof (induction "is" arbitrary: m)
  case Nil
  then show ?case by simp
next
  case (Cons i "is")
  from Cons.prems have "i < length ll" by simp
  from scan_rows_drop_in_bounds [OF Cons.prems(1) this, of "ii ! i" "ii ! i" v] obtain x where
    x: "scan_rows (drop (ii ! i) (ll ! i)) (ii ! i) jfl i v = Inr x" ..
  show ?case
  proof (cases x)
    case None
    with x show ?thesis by simp
  next
    case (Some j)
    have "k \<noteq> i"
    proof
      assume "k = i"
      with Cons.prems(4) have "drop (ii ! i) (ll ! i) = []" by simp
      with x Some show False by simp
    qed
    with Cons.prems have "k \<in> set is" by simp
    with Cons.IH [of "m @ [j]"] Cons.prems
    have "match_tables ll jfl ii v is (m @ [j]) = Inr None"
      by simp
    with x Some show ?thesis by simp
  qed
qed

lemma no_finished_list_Inr:
  "length ii = length ll \<Longrightarrow> ll \<noteq> [] \<Longrightarrow>
     no_finished_list ii ll = Inr (\<forall>i<length ll. ii ! i < length (ll ! i))"
  by (auto simp: no_finished_list_def list_all_iff)

lemma first_cell_in_bounds:
  assumes "join_columns_in_bounds ll jfl" "ll \<noteq> []" "c < length (ll ! 0)"
  shows "\<exists>v. join_cell (ll ! 0 ! c) jfl 0 = Inr v"
proof -
  from assms(2) have "0 < length ll" by simp
  from in_bounds_row [OF assms(1) this, of "ll ! 0 ! c"] assms(3)
  show ?thesis by (simp add: join_cell_def)
qed

lemma match_loop_total:
  "join_columns_in_bounds ll jfl \<Longrightarrow> length ii = length ll \<Longrightarrow> ll \<noteq> [] \<Longrightarrow>
     \<exists>res. match_loop ll jfl ii ms = Inr res"
proof (induction ll jfl ii ms rule: match_loop.induct)
  case (1 ll jfl ii ms)
  note wf = "1.prems"(1) and len = "1.prems"(2) and ne = "1.prems"(3)
  define b where "b = (\<forall>i<length ll. ii ! i < length (ll ! i))"
  have nf: "no_finished_list ii ll = Inr b"
    using no_finished_list_Inr [OF len ne] by (simp add: b_def)
  show ?case
  proof (cases b)
    case False
    with nf show ?thesis
      by (subst match_loop.simps) simp
  next
    case True
    with nf have "ii ! 0 < length (ll ! 0)"
      using no_finished_list_True by simp
    from first_cell_in_bounds [OF wf ne this] obtain v where
      v: "join_cell (ll ! 0 ! (ii ! 0)) jfl 0 = Inr v" ..
    from match_tables_in_bounds [OF wf, of "[1..<length ll]" ii v "[ii ! 0]"] obtain x where
      x: "match_tables ll jfl ii v [1..<length ll] [ii ! 0] = Inr x"
      by auto
    from True have nn: "\<not> \<not> b" by simp
    show ?thesis
    proof (cases x)
      case None
      have l': "length (ii[0 := ii ! 0 + 1]) = length ll"
        using len by simp
      from "1.IH"(1) [OF nf nn v x None wf l' ne] nf True v x None show ?thesis
        by (subst match_loop.simps) simp
    next
      case (Some m)
      from x Some True nf have "good_match ll jfl ii m"
        using match_step_good [OF _ len v] by simp
      then have l': "length (map (\<lambda>i. i + 1) m) = length ll"
        by (simp add: good_match_def)
      from "1.IH"(2) [OF nf nn v x Some wf l' ne] nf True v x Some show ?thesis
        by (subst match_loop.simps) simp
    qed
  qed
qed

lemma match_loop_table0_exhausted:
  "join_columns_in_bounds ll jfl \<Longrightarrow> length ii = length ll \<Longrightarrow> k < length ll \<Longrightarrow>
     length (ll ! k) \<le> ii ! k \<Longrightarrow> match_loop_table0 ll jfl ii ms = Inr ms"
proof (induction ll jfl ii ms rule: match_loop_table0.induct)
  case (1 ll jfl ii ms)
  note wf = "1.prems"(1) and len = "1.prems"(2) and k = "1.prems"(3) and ex = "1.prems"(4)
  from k len have ne: "\<not> (ii = [] \<or> ll = [])" by auto
  show ?case
  proof (cases "ii ! 0 < length (ll ! 0)")
    case False
    with ne show ?thesis
      by (subst match_loop_table0.simps) simp
  next
    case True
    have k0: "k \<noteq> 0"
    proof
      assume "k = 0"
      with ex True show False by simp
    qed
    from ne have ne': "ll \<noteq> []" by simp
    from first_cell_in_bounds [OF wf ne' True] obtain v where
      v: "join_cell (ll ! 0 ! (ii ! 0)) jfl 0 = Inr v" ..
    from k k0 have "k \<in> set [1..<length ll]" by simp
    with match_tables_exhausted [OF wf _ _ ex, of "[1..<length ll]" v "[ii ! 0]"]
    have x: "match_tables ll jfl ii v [1..<length ll] [ii ! 0] = Inr None"
      by simp
    have l': "length (ii[0 := ii ! 0 + 1]) = length ll"
      using len by simp
    from k0 ex have ex': "length (ll ! k) \<le> ii[0 := ii ! 0 + 1] ! k"
      by simp
    from True have nn: "\<not> \<not> ii ! 0 < length (ll ! 0)" by simp
    from "1.IH"(1) [OF ne nn v x refl wf l' k ex'] ne True v x show ?thesis
      by (subst match_loop_table0.simps) simp
  qed
qed

lemma match_loop_eq_table0:
  "join_columns_in_bounds ll jfl \<Longrightarrow> length ii = length ll \<Longrightarrow> ll \<noteq> [] \<Longrightarrow>
     match_loop ll jfl ii ms = match_loop_table0 ll jfl ii ms"
proof (induction ll jfl ii ms rule: match_loop.induct)
  case (1 ll jfl ii ms)
  note wf = "1.prems"(1) and len = "1.prems"(2) and ne = "1.prems"(3)
  define b where "b = (\<forall>i<length ll. ii ! i < length (ll ! i))"
  have nf: "no_finished_list ii ll = Inr b"
    using no_finished_list_Inr [OF len ne] by (simp add: b_def)
  from len ne have ne2: "\<not> (ii = [] \<or> ll = [])" by auto
  show ?case
  proof (cases b)
    case False
    then obtain k where "k < length ll" "length (ll ! k) \<le> ii ! k"
      by (auto simp: b_def not_less)
    from match_loop_table0_exhausted [OF wf len this]
    have "match_loop_table0 ll jfl ii ms = Inr ms" .
    moreover from False nf have "match_loop ll jfl ii ms = Inr ms"
      by (subst match_loop.simps) simp
    ultimately show ?thesis by simp
  next
    case True
    with nf have lt: "ii ! 0 < length (ll ! 0)"
      using no_finished_list_True by simp
    from first_cell_in_bounds [OF wf ne this] obtain v where
      v: "join_cell (ll ! 0 ! (ii ! 0)) jfl 0 = Inr v" ..
    from match_tables_in_bounds [OF wf, of "[1..<length ll]" ii v "[ii ! 0]"] obtain x where
      x: "match_tables ll jfl ii v [1..<length ll] [ii ! 0] = Inr x"
      by auto
    from True have nn: "\<not> \<not> b" by simp
    show ?thesis
    proof (cases x)
      case None
      have l': "length (ii[0 := ii ! 0 + 1]) = length ll"
        using len by simp
      have "match_loop ll jfl ii ms = match_loop ll jfl (ii[0 := ii ! 0 + 1]) ms"
        using nf True v x None by (subst match_loop.simps) simp
      also have "\<dots> = match_loop_table0 ll jfl (ii[0 := ii ! 0 + 1]) ms"
        by (rule "1.IH"(1) [OF nf nn v x None wf l' ne])
      also have "\<dots> = match_loop_table0 ll jfl ii ms"
        using ne2 lt v x None by (subst (2) match_loop_table0.simps) simp
      finally show ?thesis .
    next
      case (Some m)
      from x Some True nf have "good_match ll jfl ii m"
        using match_step_good [OF _ len v] by simp
      then have l': "length (map (\<lambda>i. i + 1) m) = length ll"
        by (simp add: good_match_def)
      have "match_loop ll jfl ii ms = match_loop ll jfl (map (\<lambda>i. i + 1) m) (ms @ [m])"
        using nf True v x Some by (subst match_loop.simps) simp
      also have "\<dots> = match_loop_table0 ll jfl (map (\<lambda>i. i + 1) m) (ms @ [m])"
        by (rule "1.IH"(2) [OF nf nn v x Some wf l' ne])
      also have "\<dots> = match_loop_table0 ll jfl ii ms"
        using ne2 lt v x Some by (subst (2) match_loop_table0.simps) simp
      finally show ?thesis .
    qed
  qed
qed

lemma get_match_list_rows:
  assumes "get_match_list ll jfl = Inr ms" "m \<in> set ms"
  shows "\<exists>ii. good_match ll jfl ii m"
proof -
  define I where "I = (\<lambda>(ii :: nat list) ms. \<forall>m\<in>set ms. \<exists>ii. good_match ll jfl ii m)"
  from assms(1) have run: "match_loop ll jfl (replicate (length ll) 0) [] = Inr ms"
    by (simp add: get_match_list_def)
  have "\<exists>ii'. length ii' = length ll \<and> I ii' ms"
    by (rule match_loop_invariant [OF run]) (auto simp: I_def)
  with assms(2) show ?thesis
    by (auto simp: I_def)
qed

lemma get_match_list_count:
  assumes "get_match_list ll jfl = Inr ms" "i < length ll"
  shows "length ms \<le> length (ll ! i)"
proof -
  define I where "I = (\<lambda>(ii :: nat list) (ms :: nat list list).
     \<forall>i<length ll. length ms \<le> ii ! i \<and> ii ! i \<le> length (ll ! i))"
  from assms(1) have run: "match_loop ll jfl (replicate (length ll) 0) [] = Inr ms"
    by (simp add: get_match_list_def)
  have "\<exists>ii'. length ii' = length ll \<and> I ii' ms"
  proof (rule match_loop_invariant [OF run])
    show "length (replicate (length ll) (0::nat)) = length ll" by simp
    show "I (replicate (length ll) 0) []" by (simp add: I_def)
  next
    fix ii :: "nat list" and ms :: "nat list list"
    assume a: "I ii ms" "length ii = length ll" "ii \<noteq> []" "ii ! 0 < length (ll ! 0)"
    show "I (ii[0 := ii ! 0 + 1]) ms"
      unfolding I_def
    proof (intro allI impI)
      fix i assume i: "i < length ll"
      with a show "length ms \<le> ii[0 := ii ! 0 + 1] ! i \<and> ii[0 := ii ! 0 + 1] ! i \<le> length (ll ! i)"
        by (cases i) (auto simp: I_def le_SucI)
    qed
  next
    fix ii m :: "nat list" and ms :: "nat list list"
    assume a: "I ii ms" "length ii = length ll" "good_match ll jfl ii m"
    show "I (map (\<lambda>i. i + 1) m) (ms @ [m])"
      unfolding I_def
    proof (intro allI impI)
      fix i assume i: "i < length ll"
      with a have "length ms \<le> ii ! i" "ii ! i \<le> m ! i" "m ! i < length (ll ! i)" "i < length m"
        by (auto simp: I_def good_match_def)
      then show "length (ms @ [m]) \<le> map (\<lambda>i. i + 1) m ! i \<and>
          map (\<lambda>i. i + 1) m ! i \<le> length (ll ! i)"
        by simp
    qed
  qed
  with assms(2) show ?thesis
    by (auto simp: I_def)
qed

lemma get_match_list_sorted:
  assumes "get_match_list ll jfl = Inr ms"
  shows "sorted_wrt (rows_before (length ll)) ms"
proof -
  define I where "I = (\<lambda>(ii :: nat list) (ms :: nat list list).
     sorted_wrt (rows_before (length ll)) ms \<and> (\<forall>a\<in>set ms. rows_before (length ll) a ii))"
  from assms(1) have run: "match_loop ll jfl (replicate (length ll) 0) [] = Inr ms"
    by (simp add: get_match_list_def)
  have "\<exists>ii'. length ii' = length ll \<and> I ii' ms"
  proof (rule match_loop_invariant [OF run])
    show "length (replicate (length ll) (0::nat)) = length ll" by simp
    show "I (replicate (length ll) 0) []" by (simp add: I_def)
  next
    fix ii :: "nat list" and ms :: "nat list list"
    assume a: "I ii ms" "length ii = length ll" "ii \<noteq> []" "ii ! 0 < length (ll ! 0)"
    have "rows_before (length ll) a (ii[0 := ii ! 0 + 1])" if "rows_before (length ll) a ii" for a
      unfolding rows_before_def
    proof (intro allI impI)
      fix i assume "i < length ll"
      with that a(2) show "a ! i < ii[0 := ii ! 0 + 1] ! i"
        by (cases i) (auto simp: rows_before_def less_SucI)
    qed
    with a(1) show "I (ii[0 := ii ! 0 + 1]) ms"
      by (simp add: I_def)
  next
    fix ii m :: "nat list" and ms :: "nat list list"
    assume a: "I ii ms" "length ii = length ll" "good_match ll jfl ii m"
    have 1: "rows_before (length ll) b m" if "rows_before (length ll) b ii" for b
      using that a(3) by (fastforce simp: rows_before_def good_match_def)
    have 2: "rows_before (length ll) b (map (\<lambda>i. i + 1) m)" if "rows_before (length ll) b m" for b
      using that a(3) by (auto simp: rows_before_def good_match_def less_SucI)
    have 3: "rows_before (length ll) m (map (\<lambda>i. i + 1) m)"
      using a(3) by (auto simp: rows_before_def good_match_def)
    from a(1) 1 2 3 show "I (map (\<lambda>i. i + 1) m) (ms @ [m])"
      by (auto simp: I_def sorted_wrt_append)
  qed
  then show ?thesis
    by (auto simp: I_def)
qed

lemma scenario_a_in_bounds: "join_columns_in_bounds scenario_a_lines [0, 0]"
  by code_simp

lemma scenario_a_matches: "get_match_list scenario_a_lines [0, 0] = Inr [[0, 1]]"
  by code_simp

lemma two_match_matches: "get_match_list two_match_lines [0, 0] = Inr [[0, 0], [1, 1]]"
  by code_simp

section \<open>Properties of the column references\<close>

lemma py_split_no_sep: "sep \<notin> set w \<Longrightarrow> py_split sep w cur = [cur @ w]"
  by (induction w arbitrary: cur) auto

lemma py_split_at:
  "sep \<notin> set ds \<Longrightarrow> py_split sep (ds @ sep # rest) cur = (cur @ ds) # py_split sep rest []"
  by (induction ds arbitrary: cur) auto

lemma colon_not_word: "\<not> is_digit CHR '':''" "\<not> is_word CHR '':''"
  by (simp_all add: is_digit_def is_word_def)

lemma digits_no_colon: "list_all is_digit ds \<Longrightarrow> CHR '':'' \<notin> set ds"
  using colon_not_word by (auto simp: list_all_iff)

lemma words_no_colon: "list_all is_word ws \<Longrightarrow> CHR '':'' \<notin> set ws"
  using colon_not_word by (auto simp: list_all_iff)

lemma token_shape_split:
  assumes "tok = ds @ CHR '':'' # ws" "list_all is_digit ds" "CHR '':'' \<notin> set ws"
  shows "py_split CHR '':'' tok [] = [ds, ws]"
  using py_split_at [OF digits_no_colon [OF assms(2)], of ws "[]"] py_split_no_sep [OF assms(3), of "[]"]
  by (simp add: assms(1))

lemma token_shape_parse:
  assumes "token_shape tok"
  shows "(\<exists>p. parse_or_unknown tok cl = Inr p) \<or> parse_or_unknown tok cl = Inl IndexError \<or>
     parse_or_unknown tok cl = Inl (unknown_column tok)"
proof -
  from assms obtain ds ws where t: "tok = ds @ CHR '':'' # ws" "ds \<noteq> []" "list_all is_digit ds"
    "CHR '':'' \<notin> set ws"
    by (auto simp: token_shape_def)
  have sp: "py_split CHR '':'' tok [] = [ds, ws]"
    by (rule token_shape_split [OF t(1,3,4)])
  have pi: "py_int ds = Inr (nat_of_digits ds)"
    using t(2,3) by (simp add: py_int_def)
  have ix: "(\<exists>j. py_index xs ws = Inr j) \<or> py_index xs ws = Inl ValueError" for xs :: "string list"
    by (induction xs) (auto split: sum.splits)
  show ?thesis
  proof (cases "nat_of_digits ds < length cl")
    case False
    then show ?thesis
      by (simp add: parse_or_unknown_def parse_column_name_def sp pi)
  next
    case True
    with ix [of "cl ! nat_of_digits ds"] show ?thesis
      by (auto simp: parse_or_unknown_def parse_column_name_def sp pi)
  qed
qed

lemma bad_index_parse:
  assumes "file_index tok = Inr k" "length cl \<le> k"
  shows "parse_or_unknown tok cl = Inl IndexError"
proof -
  from assms(1) obtain i field where sp: "py_split CHR '':'' tok [] = [i, field]"
    and pi: "py_int i = Inr k"
    by (auto simp: file_index_def split: list.splits)
  with assms(2) show ?thesis
    by (simp add: parse_or_unknown_def parse_column_name_def)
qed

lemma match_column_name_shape:
  assumes "match_column_name s = Some n"
  shows "\<exists>ds ws. s = ds @ CHR '':'' # ws @ drop n s \<and> n = length ds + 1 + length ws \<and>
     ds \<noteq> [] \<and> list_all is_digit ds \<and> ws \<noteq> [] \<and> list_all is_word ws"
proof -
  define ds where "ds = takeWhile is_digit s"
  define r where "r = dropWhile is_digit s"
  have s: "s = ds @ r" by (simp add: ds_def r_def)
  from assms obtain r' where r: "r = CHR '':'' # r'" and ne: "ds \<noteq> []"
    and w: "takeWhile is_word r' \<noteq> []"
    and n: "n = length ds + 1 + length (takeWhile is_word r')"
    by (auto simp: match_column_name_def Let_def ds_def r_def split: if_splits list.splits)
  define ws where "ws = takeWhile is_word r'"
  have r': "r' = ws @ dropWhile is_word r'" by (simp add: ws_def)
  have "drop n s = dropWhile is_word r'"
    by (subst s, subst r, subst r') (simp add: n ws_def dropWhile_eq_drop [symmetric])
  with s r r' have "s = ds @ CHR '':'' # ws @ drop n s"
    by simp
  moreover have "list_all is_digit ds"
    by (auto simp: ds_def list_all_iff dest: set_takeWhileD)
  moreover have "list_all is_word ws"
    by (auto simp: ws_def list_all_iff dest: set_takeWhileD)
  ultimately show ?thesis
    using ne w n by (auto simp: ws_def)
qed

lemma match_column_name_token:
  assumes "match_column_name s = Some n"
  shows "token_shape (take n s)"
proof -
  from match_column_name_shape [OF assms] obtain ds ws where
    a: "s = ds @ CHR '':'' # ws @ drop n s" "n = length ds + 1 + length ws"
      "ds \<noteq> []" "list_all is_digit ds" "list_all is_word ws"
    by blast
  have "take n s = take n (ds @ CHR '':'' # ws @ drop n s)"
    using a(1) by simp
  also have "\<dots> = ds @ CHR '':'' # ws"
    by (simp add: a(2))
  finally show ?thesis
    using a(3,4) words_no_colon [OF a(5)] by (auto simp: token_shape_def)
qed

lemma is_column_name_token:
  assumes "is_column_name colname"
  shows "token_shape colname"
proof -
  from assms obtain n where m: "match_column_name colname = Some n"
    and e: "n = length colname \<or> drop n colname = [newline]"
    by (auto simp: is_column_name_def split: option.splits)
  from match_column_name_shape [OF m] obtain ds ws where
    a: "colname = ds @ CHR '':'' # ws @ drop n colname" "ds \<noteq> []" "list_all is_digit ds"
      "list_all is_word ws"
    by blast
  have "CHR '':'' \<notin> set (ws @ drop n colname)"
    using e words_no_colon [OF a(4)] by (auto simp: newline_def)
  with a(1,2,3) show ?thesis
    unfolding token_shape_def by blast
qed

lemma finditer_columns_spans:
  "(a, b) \<in> set (finditer_columns s pos) \<Longrightarrow>
     pos \<le> a \<and> a \<le> b \<and> match_column_name (drop (a - pos) s) = Some (b - a)"
proof (induction s pos rule: finditer_columns.induct)
  case (1 s pos)
  show ?case
  proof (cases "s = []")
    case True
    with "1.prems" show ?thesis
      by (subst (asm) finditer_columns.simps) simp
  next
    case False
    show ?thesis
    proof (cases "match_column_name s")
      case None
      with False "1.prems" have "(a, b) \<in> set (finditer_columns (tl s) (pos + 1))"
        by (subst (asm) finditer_columns.simps) simp
      from "1.IH"(1) [OF False None this]
      have ih: "pos + 1 \<le> a" "a \<le> b" "match_column_name (drop (a - (pos + 1)) (tl s)) = Some (b - a)"
        by auto
      have "drop (a - (pos + 1)) (tl s) = drop (a - pos) s"
        using ih(1) by (simp add: drop_Suc [symmetric] Suc_diff_Suc)
      with ih show ?thesis by simp
    next
      case (Some n)
      with False "1.prems"
      have "(a, b) = (pos, pos + n) \<or> (a, b) \<in> set (finditer_columns (drop n s) (pos + n))"
        by (subst (asm) finditer_columns.simps) simp
      then show ?thesis
      proof
        assume "(a, b) = (pos, pos + n)"
        with Some show ?thesis by simp
      next
        assume "(a, b) \<in> set (finditer_columns (drop n s) (pos + n))"
        from "1.IH"(2) [OF False Some this]
        have ih: "pos + n \<le> a" "a \<le> b"
          "match_column_name (drop (a - (pos + n)) (drop n s)) = Some (b - a)"
          by auto
        have "drop (a - (pos + n)) (drop n s) = drop (a - pos) s"
          using ih(1) by simp
        with ih show ?thesis by simp
      qed
    qed
  qed
qed

lemma parse_matches_fails:
  assumes "\<forall>(a, b)\<in>set spans. token_shape (take (b - a) (drop a colname))"
    and "(a, b) \<in> set spans"
    and "parse_or_unknown (take (b - a) (drop a colname)) cl = Inl IndexError"
  shows "\<exists>e. parse_matches colname spans cl = Inl e \<and> column_error e"
  using assms
proof (induction spans)
  case Nil
  then show ?case by simp
next
  case (Cons sp spans)
  obtain i j where sp: "sp = (i, j)" by (cases sp)
  from Cons.prems(1) sp have "token_shape (take (j - i) (drop i colname))"
    by simp
  from token_shape_parse [OF this, of cl]
  consider p where "parse_or_unknown (take (j - i) (drop i colname)) cl = Inr p"
    | e where "parse_or_unknown (take (j - i) (drop i colname)) cl = Inl e" "column_error e"
    by (auto simp: column_error_def)
  then show ?case
  proof cases
    case 2
    then show ?thesis by (simp add: sp)
  next
    case 1
    with Cons.prems(2,3) sp have "(a, b) \<in> set spans"
      by auto
    from Cons.IH [OF _ this Cons.prems(3)] Cons.prems(1)
    obtain e where "parse_matches colname spans cl = Inl e" "column_error e"
      by auto
    with 1 show ?thesis by (simp add: sp)
  qed
qed

lemma bad_file_index_Expression:
  assumes "tok \<in> set (column_tokens colname)" "file_index tok = Inr k" "length cl \<le> k"
  shows "\<exists>e. Expression colname cl = Inl e \<and> column_error e"
proof (cases "is_column_name colname")
  case True
  with assms(1) have "tok = colname"
    by (simp add: column_tokens_def)
  with bad_index_parse [OF assms(2,3)] True show ?thesis
    by (simp add: Expression_def column_error_def)
next
  case False
  with assms(1) obtain a b where ab: "(a, b) \<in> set (finditer_columns colname 0)"
    and tok: "tok = take (b - a) (drop a colname)"
    by (auto simp: column_tokens_def)
  have sh: "\<forall>(a, b)\<in>set (finditer_columns colname 0). token_shape (take (b - a) (drop a colname))"
  proof (clarify)
    fix a b assume "(a, b) \<in> set (finditer_columns colname 0)"
    from finditer_columns_spans [OF this] have "match_column_name (drop a colname) = Some (b - a)"
      by simp
    from match_column_name_token [OF this] show "token_shape (take (b - a) (drop a colname))" .
  qed
  from bad_index_parse [OF assms(2,3)] tok
  have "parse_or_unknown (take (b - a) (drop a colname)) cl = Inl IndexError"
    by simp
  from parse_matches_fails [OF sh ab this] False show ?thesis
    by (auto simp: Expression_def Let_def)
qed

lemma collect_fails:
  "x \<in> set xs \<Longrightarrow> f x = Inl e \<Longrightarrow> \<exists>e'. collect f xs = Inl e'"
  by (induction xs) (auto split: sum.splits)

section \<open>Properties of the evaluation\<close>

































section \<open>The claims\<close>

text \<open>
  Claim C1: on the two tables of scenario A (table 0 with header city, pop and rows
  NYC, 8 and LA, 4; table 1 with header city, area and rows LA, 500 and NYC, 300), joined
  on \<^verbatim>\<open>0:city\<close> and \<^verbatim>\<open>1:city\<close> with the output columns \<^verbatim>\<open>0:city\<close>, \<^verbatim>\<open>0:pop\<close> and
  \<^verbatim>\<open>1:area\<close>, the join columns are column 0 of both tables, the matcher returns the one
  tuple of row 0 of table 0 and row 1 of table 1, and the program writes the single row
  \<^verbatim>\<open>NYC,8,300\<close>. The value LA of the later row of table 0 is in row 0 of table 1, but the
  counter of table 1 is 2 after the match: the scan from there finds nothing, and the
  loop started from the counters 1 and 2 adds no tuple.
\<close>

theorem scenario_a_single_row:
  "get_field_list scenario_a (Some [''0:city'', ''1:city'']) (map fst scenario_a) = Inr [0, 0] \<and>
   get_match_list (map snd scenario_a) [0, 0] = Inr [[0, 1]] \<and>
   main scenario_a (Some [''0:city'', ''1:city'']) [''0:city'', ''0:pop'', ''1:area'']
     = Written [''NYC,8,300'' @ [newline]] None \<and>
   scan_rows (drop 0 (map snd scenario_a ! 1)) 0 [0, 0] 1 ''LA'' = Inr (Some 0) \<and>
   scan_rows (drop 2 (map snd scenario_a ! 1)) 2 [0, 0] 1 ''LA'' = Inr None \<and>
   match_loop (map snd scenario_a) [0, 0] [1, 2] [[0, 1]] = Inr [[0, 1]]"
  by code_simp

text \<open>
  Claim C2, as stated: for every list of input tables, \<^verbatim>\<open>get_match_list\<close> returns the
  match list of the procedure that stops only when the counter of table 0 reaches the end
  of table 0. The code stops as soon as the counter of any table reaches the end of its
  table, so it never reads the rows of table 0 that follow; the other procedure reads
  them. With two tables joined on column 1, where the second row of table 0 has a
  single cell and the only row of table 1 matches the first row of table 0, the code
  returns the one match and the other procedure raises IndexError on the short row.
\<close>

theorem get_match_list_differs_on_short_row:
  "get_match_list short_row_lines [1, 1] = Inr [[0, 0]] \<and>
   get_match_list_table0 short_row_lines [1, 1] = Inl IndexError"
  by code_simp

text \<open>
  Claim C2, amended: for every non-empty list of input tables whose join columns are in
  bounds in every row, \<^verbatim>\<open>get_match_list\<close> returns exactly what the procedure whose
  only stopping condition is table 0's counter reaching the end of table 0 returns.
\<close>

theorem get_match_list_equals_table0_loop:
  assumes "join_columns_in_bounds ll jfl" "ll \<noteq> []"
  shows "get_match_list ll jfl = get_match_list_table0 ll jfl"
  unfolding get_match_list_def get_match_list_table0_def
  by (rule match_loop_eq_table0 [OF assms(1) _ assms(2)]) simp

theorem get_match_list_equals_table0_loop_witness:
  "join_columns_in_bounds scenario_a_lines [0, 0] \<and> scenario_a_lines \<noteq> [] \<and>
   get_match_list scenario_a_lines [0, 0] = get_match_list_table0 scenario_a_lines [0, 0]"
proof -
  have ne: "scenario_a_lines \<noteq> []"
    by (simp add: scenario_a_lines_def)
  from get_match_list_equals_table0_loop [OF scenario_a_in_bounds ne] scenario_a_in_bounds ne
  show ?thesis by simp
qed

text \<open>
  Claim C3: for every non-empty list of input tables with in-bounds join columns,
  \<^verbatim>\<open>get_match_list\<close> returns a match list, and the number of its tuples is at most the
  row count of the smallest input table.
\<close>

theorem match_count_le_smallest_table:
  assumes "join_columns_in_bounds ll jfl" "ll \<noteq> []"
  shows "\<exists>ms. get_match_list ll jfl = Inr ms \<and> length ms \<le> Min (set (map length ll))"
proof -
  from match_loop_total [OF assms(1) _ assms(2), of "replicate (length ll) 0" "[]"]
  obtain ms where ms: "get_match_list ll jfl = Inr ms"
    by (auto simp: get_match_list_def)
  have "length ms \<le> n" if "n \<in> set (map length ll)" for n
  proof -
    from that obtain i where "i < length ll" "n = length (ll ! i)"
      by (auto simp: in_set_conv_nth)
    with get_match_list_count [OF ms] show ?thesis by simp
  qed
  with assms(2) have "length ms \<le> Min (set (map length ll))"
    by (intro Min.boundedI) auto
  with ms show ?thesis by blast
qed

theorem match_count_le_smallest_table_witness:
  "join_columns_in_bounds two_match_lines [0, 0] \<and> two_match_lines \<noteq> [] \<and>
   (\<exists>ms. get_match_list two_match_lines [0, 0] = Inr ms \<and>
      length ms \<le> Min (set (map length two_match_lines)))"
proof -
  have wf: "join_columns_in_bounds two_match_lines [0, 0]"
    by code_simp
  have ne: "two_match_lines \<noteq> []"
    by (simp add: two_match_lines_def)
  from match_count_le_smallest_table [OF wf ne] wf ne show ?thesis
    by simp
qed

text \<open>
  Claim C4: every match tuple returned by \<^verbatim>\<open>get_match_list\<close> has one row index per
  table, each inside its table, and for every table \<open>i\<close> the join cell of row
  \<open>m ! i\<close> of table \<open>i\<close> is the same string as the join cell of row \<open>m ! 0\<close> of
  table 0 (equality of strings, character by character; no number is parsed).
\<close>

theorem match_tuple_join_cells_equal:
  assumes "get_match_list ll jfl = Inr ms" "m \<in> set ms" "i < length ll"
  shows "length m = length ll \<and> m ! i < length (ll ! i) \<and> m ! 0 < length (ll ! 0) \<and>
     (\<exists>v. join_cell (ll ! i ! (m ! i)) jfl i = Inr v \<and> join_cell (ll ! 0 ! (m ! 0)) jfl 0 = Inr v)"
proof -
  from get_match_list_rows [OF assms(1,2)] obtain ii where g: "good_match ll jfl ii m" ..
  from assms(3) have 0: "0 < length ll" by (cases ll) auto
  from g assms(3) 0 show ?thesis
    unfolding good_match_def join_cell_Inr by metis
qed

theorem match_tuple_join_cells_equal_witness:
  "get_match_list scenario_a_lines [0, 0] = Inr [[0, 1]] \<and> [0, 1] \<in> set [[0, 1 :: nat]] \<and>
   1 < length scenario_a_lines \<and>
   join_cell (scenario_a_lines ! 1 ! ([0, 1] ! 1)) [0, 0] 1 = Inr ''NYC'' \<and>
   join_cell (scenario_a_lines ! 0 ! ([0, 1] ! 0)) [0, 0] 0 = Inr ''NYC''"
proof -
  have m: "[0, 1] \<in> set [[0, 1 :: nat]]"
    by simp
  have i: "1 < length scenario_a_lines"
    by (simp add: scenario_a_lines_def)
  have c: "join_cell (scenario_a_lines ! 0 ! ([0, 1] ! 0)) [0, 0] 0 = Inr ''NYC''"
    by (simp add: scenario_a_lines_def join_cell_def)
  from match_tuple_join_cells_equal [OF scenario_a_matches m i] c scenario_a_matches m i
  show ?thesis by auto
qed

text \<open>
  Claim C5, as stated: an output column that names a file index outside the input tables
  makes the construction of the \<^verbatim>\<open>Expression\<close> fail with the unknown-column-name
  error. With two input files, \<^verbatim>\<open>2:city\<close> raises IndexError instead: the subscript
  \<^verbatim>\<open>colnames_list[2]\<close> fails, and the \<^verbatim>\<open>except ValueError\<close> around the call does not
  catch it.
\<close>

theorem bad_file_index_is_index_error:
  "Expression ''2:city'' two_files_colnames = Inl IndexError \<and>
   Expression ''2:city'' two_files_colnames \<noteq> Inl (unknown_column ''2:city'')"
  by code_simp

text \<open>
  Claim C5, amended: if an output column holds a column reference whose file index is
  not an index into the list of input tables, the construction of its \<^verbatim>\<open>Expression\<close>
  fails, and \<^verbatim>\<open>main\<close> ends in an exception before the output file is opened, so
  that no row is evaluated or written. The expressions are constructed after the match
  list is computed: when the matcher raises, that exception is the one \<^verbatim>\<open>main\<close>
  ends in. (The theorem also says which exception the construction raises: the
  IndexError of the subscript, unless an earlier reference of the same formula names a
  column that its table does not have.)
\<close>

theorem bad_file_index_aborts:
  assumes "colname \<in> set out_cols" "tok \<in> set (column_tokens colname)"
    and "file_index tok = Inr k" "length inputs \<le> k"
  shows "(\<exists>e. Expression colname (map fst inputs) = Inl e \<and> column_error e) \<and>
     (\<exists>e. main inputs join out_cols = Aborted e) \<and>
     (\<forall>jfl e. get_field_list inputs join (map fst inputs) = Inr jfl \<longrightarrow>
        get_match_list (map snd inputs) jfl = Inl e \<longrightarrow> main inputs join out_cols = Aborted e)"
proof (intro conjI allI impI)
  from assms(4) have "length (map fst inputs) \<le> k" by simp
  from bad_file_index_Expression [OF assms(2,3) this]
  show ex: "\<exists>e. Expression colname (map fst inputs) = Inl e \<and> column_error e" .
  then obtain e where "Expression colname (map fst inputs) = Inl e" by blast
  from collect_fails [OF assms(1), of "\<lambda>c. Expression c (map fst inputs)", OF this]
  obtain e' where "collect (\<lambda>c. Expression c (map fst inputs)) out_cols = Inl e'" ..
  then show "\<exists>e. main inputs join out_cols = Aborted e"
    by (auto simp: main_def Let_def split: sum.splits)
next
  fix jfl e
  assume "get_field_list inputs join (map fst inputs) = Inr jfl"
    "get_match_list (map snd inputs) jfl = Inl e"
  then show "main inputs join out_cols = Aborted e"
    by (simp add: main_def Let_def)
qed

theorem bad_file_index_aborts_witness:
  "''2:city'' \<in> set [''0:city'', ''2:city''] \<and> ''2:city'' \<in> set (column_tokens ''2:city'') \<and>
   file_index ''2:city'' = Inr 2 \<and> length scenario_a \<le> 2 \<and>
   (\<exists>e. Expression ''2:city'' (map fst scenario_a) = Inl e \<and> column_error e) \<and>
   (\<exists>e. main scenario_a (Some [''0:city'', ''1:city'']) [''0:city'', ''2:city''] = Aborted e)"
proof -
  have 1: "''2:city'' \<in> set [''0:city'', ''2:city'']" by simp
  have 2: "''2:city'' \<in> set (column_tokens ''2:city'')" by code_simp
  have 3: "file_index ''2:city'' = Inr 2" by code_simp
  have 4: "length scenario_a \<le> 2" by (simp add: scenario_a_def two_files_colnames_def scenario_a_lines_def)
  from bad_file_index_aborts [OF 1 2 3 4, of "Some [''0:city'', ''1:city'']"] 1 2 3 4
  show ?thesis by blast
qed

text \<open>
  Claim C6: when the number of join entries differs from the number of input files,
  \<^verbatim>\<open>main\<close> ends in the AssertionError of \<^verbatim>\<open>get_field_list\<close>, whatever the tables
  and the output columns are: before any match tuple is computed and before the output
  file is opened.
\<close>

theorem join_count_mismatch_aborts:
  "length joins \<noteq> length inputs \<Longrightarrow> main inputs (Some joins) out_cols = Aborted AssertionError"
  by (auto simp: main_def get_field_list_def Let_def)

theorem join_count_mismatch_aborts_witness:
  "length [''0:city''] \<noteq> length scenario_a \<and>
   main scenario_a (Some [''0:city'']) [''0:city'', ''0:pop'', ''1:area''] = Aborted AssertionError"
proof -
  have h: "length [''0:city''] \<noteq> length scenario_a"
    by (simp add: scenario_a_def two_files_colnames_def scenario_a_lines_def)
  from join_count_mismatch_aborts [OF h] h show ?thesis by simp
qed




text \<open>
  Claim C10: in the match list returned by \<^verbatim>\<open>get_match_list\<close> the row indices increase
  strictly in every coordinate: a tuple that comes later has a larger row index for
  every table (in particular the next tuple), so no row of any table appears in two
  tuples.
\<close>

theorem match_rows_strictly_increasing:
  assumes "get_match_list ll jfl = Inr ms" "k < length ms" "k' < length ms" "i < length ll"
  shows "(k < k' \<longrightarrow> ms ! k ! i < ms ! k' ! i) \<and> (k \<noteq> k' \<longrightarrow> ms ! k ! i \<noteq> ms ! k' ! i)"
proof -
  note s = get_match_list_sorted [OF assms(1)]
  have lt: "ms ! a ! i < ms ! b ! i" if "a < b" "b < length ms" for a b
    using sorted_wrt_nth_less [OF s that] assms(4) by (simp add: rows_before_def)
  show ?thesis
  proof (intro conjI impI)
    assume "k < k'"
    then show "ms ! k ! i < ms ! k' ! i"
      using lt assms(3) by simp
  next
    assume "k \<noteq> k'"
    then consider "k < k'" | "k' < k" by linarith
    then show "ms ! k ! i \<noteq> ms ! k' ! i"
    proof cases
      case 1
      with lt [of k k'] assms(3) show ?thesis by simp
    next
      case 2
      with lt [of k' k] assms(2) show ?thesis by simp
    qed
  qed
qed

theorem match_rows_strictly_increasing_witness:
  "get_match_list two_match_lines [0, 0] = Inr [[0, 0], [1, 1]] \<and>
   (0::nat) < length [[0, 0], [1, 1 :: nat]] \<and> (1::nat) < length [[0, 0], [1, 1 :: nat]] \<and>
   (1::nat) < length two_match_lines \<and> (0::nat) < 1 \<and>
   [[0, 0], [1, 1 :: nat]] ! 0 ! 1 < [[0, 0], [1, 1]] ! 1 ! 1"
proof -
  have k: "(0::nat) < length [[0, 0], [1, 1 :: nat]]" and k': "(1::nat) < length [[0, 0], [1, 1 :: nat]]"
    by simp_all
  have i: "(1::nat) < length two_match_lines"
    by (simp add: two_match_lines_def)
  from match_rows_strictly_increasing [OF two_match_matches k k' i] two_match_matches k k' i
  show ?thesis by simp
qed

end
